theory Spec2Isabelle
  imports Complex_Main
begin

section \<open>Module instance addresses (internal/addrs/module_instance.go)\<close>

subsection \<open>Data model\<close>

text \<open>
  An \<open>instanceKey\<close> is a Go interface value: \<open>NoKey\<close> is the nil interface,
  \<open>stringKey\<close> wraps a string and \<open>intKey\<close> wraps an \<open>int\<close>. Equality of interface
  values compares the dynamic type and then the value, which is the equality of this
  datatype.
\<close>

datatype instanceKey = NoKey | StringKey string | IntKey int

record ModuleInstanceStep =
  Name :: string
  InstanceKey :: instanceKey

type_synonym ModuleInstance = "ModuleInstanceStep list"

type_synonym Module = "string list"

definition RootModuleInstance :: ModuleInstance where
  "RootModuleInstance = []"

text \<open>
  The resource addresses that are \<open>Targetable\<close>. Their declarations live in sibling
  files of the package; only the owning \<open>Module\<close> field is read here, the resource part
  is carried as an opaque name.
\<close>

datatype absResource = AbsResource (absResource_Module: ModuleInstance) (absResource_Resource: string)

datatype absResourceInstance =
  AbsResourceInstance (absResourceInstance_Module: ModuleInstance) (absResourceInstance_Resource: string)

text \<open>
  \<open>Targetable\<close> is an interface; the type switch of \<open>TargetContains\<close> distinguishes the
  three address kinds it knows and every other implementation.
\<close>

datatype Targetable =
    TModuleInstance ModuleInstance
  | TAbsResource absResource
  | TAbsResourceInstance absResourceInstance
  | TOther

subsection \<open>Child and the unkeyed shim\<close>

definition Child :: "ModuleInstance \<Rightarrow> string \<Rightarrow> instanceKey \<Rightarrow> ModuleInstance" where
  "Child m name key = m @ [\<lparr>Name = name, InstanceKey = key\<rparr>]"

definition UnkeyedInstanceShim :: "Module \<Rightarrow> ModuleInstance" where
  "UnkeyedInstanceShim m = map (\<lambda>name. \<lparr>Name = name, InstanceKey = NoKey\<rparr>) m"

subsection \<open>TargetContains\<close>

text \<open>
  The loop \<open>for i, ourStep := range m { otherStep := to[i]; ... }\<close>, started at index
  \<open>i\<close>. Reading \<open>to[i]\<close> out of range panics in Go; that is the value \<open>None\<close>.
\<close>

function stepsMatchFrom :: "nat \<Rightarrow> ModuleInstance \<Rightarrow> ModuleInstance \<Rightarrow> bool option" where
  "stepsMatchFrom i m to =
     (if i < length m then
        (if i < length to then
           (if m ! i \<noteq> to ! i then Some False else stepsMatchFrom (Suc i) m to)
         else None)
      else Some True)"
  by pat_completeness auto
termination
  by (relation "measure (\<lambda>(i, m, to). length m - i)") auto

declare stepsMatchFrom.simps [simp del]

function TargetContains :: "ModuleInstance \<Rightarrow> Targetable \<Rightarrow> bool option" where
  "TargetContains m (TModuleInstance to) =
     (if length to < length m then Some False else stepsMatchFrom 0 m to)"
| "TargetContains m (TAbsResource to) = TargetContains m (TModuleInstance (absResource_Module to))"
| "TargetContains m (TAbsResourceInstance to) =
     TargetContains m (TModuleInstance (absResourceInstance_Module to))"
| "TargetContains m TOther = Some False"
  by pat_completeness auto
termination
  by (relation "measure (\<lambda>(m, other). case other of TModuleInstance _ \<Rightarrow> 0 | _ \<Rightarrow> Suc 0)") auto

subsection \<open>Diagnostics and traversals\<close>

text \<open>
  A diagnostic as the parser builds it. The \<open>Subject\<close> field, a source range, only
  locates the message in the text and is left out.
\<close>

datatype Severity = DiagError | DiagWarning

record Diagnostic =
  Severity :: Severity
  Summary :: string
  Detail :: string

type_synonym Diagnostics = "Diagnostic list"

text \<open>
  The key of an index step is a \<open>cty.Value\<close>; the parser asks for its type and reads a
  string or a number from it. A number is an arbitrary-precision value, here a rational.
  Keys are known, non-null values, as the steps of a traversal always hold.
\<close>

datatype cty_value = CtyString string | CtyNumber rat | CtyOther

text \<open>The four implementations of \<open>hcl.Traverser\<close>, without their source ranges.\<close>

datatype Traverser =
    TraverseRoot string
  | TraverseAttr string
  | TraverseIndex cty_value
  | TraverseSplat

type_synonym Traversal = "Traverser list"

text \<open>
  \<open>gocty.FromCtyValue\<close> into a Go \<open>int\<close> (64 bits): the number must be whole and in the
  range of the target, otherwise an error is returned. The wording of its message belongs
  to that library; the parser only copies it into the detail of a diagnostic.
\<close>

definition FromCtyValue_int :: "rat \<Rightarrow> string + int" where
  "FromCtyValue_int q =
     (let (n, d) = quotient_of q in
      if d = 1 \<and> - (2 ^ 63) \<le> n \<and> n \<le> 2 ^ 63 - 1 then Inr n
      else Inl ''value must be a whole number, between -9223372036854775808 and 9223372036854775807'')"

definition invalidOperator :: "string \<Rightarrow> Diagnostic" where
  "invalidOperator detail =
     \<lparr>Severity = DiagError, Summary = ''Invalid address operator'', Detail = detail\<rparr>"

definition invalidAddress :: "string \<Rightarrow> Diagnostic" where
  "invalidAddress detail =
     \<lparr>Severity = DiagError, Summary = ''Invalid module instance address'', Detail = detail\<rparr>"


subsection \<open>parseModuleInstancePrefix\<close>

text \<open>
  The first \<open>switch\<close> of the loop body: the name of a root or attribute step, and for any
  other step a diagnostic, with \<open>next\<close> left at its zero value. The \<open>break\<close> of the
  \<open>default\<close> case leaves the \<open>switch\<close> only.
\<close>

definition nextName :: "Traverser \<Rightarrow> Diagnostics \<Rightarrow> string \<times> Diagnostics" where
  "nextName tt diags =
     (case tt of
        TraverseRoot name \<Rightarrow> (name, diags)
      | TraverseAttr name \<Rightarrow> (name, diags)
      | _ \<Rightarrow> ([], diags @ [invalidOperator
                 ''Module address prefix must be followed by dot and then a name.'']))"

text \<open>
  The second \<open>switch\<close>: the module name of an attribute step. For any other step a
  diagnostic is appended and \<open>moduleName\<close> stays the empty string; here too \<open>break\<close>
  leaves the \<open>switch\<close> only, and the loop body goes on after it.
\<close>

definition moduleNameOf :: "Traverser \<Rightarrow> Diagnostics \<Rightarrow> string \<times> Diagnostics" where
  "moduleNameOf tt diags =
     (case tt of
        TraverseAttr name \<Rightarrow> (name, diags)
      | _ \<Rightarrow> ([], diags @ [invalidOperator
                 ''Prefix \"module.\" must be followed by a module name.'']))"

text \<open>The \<open>switch idx.Key.Type()\<close>: the instance key of an index step.\<close>

definition keyOfIndex :: "cty_value \<Rightarrow> Diagnostics \<Rightarrow> instanceKey \<times> Diagnostics" where
  "keyOfIndex key diags =
     (case key of
        CtyString s \<Rightarrow> (StringKey s, diags)
      | CtyNumber q \<Rightarrow>
          (case FromCtyValue_int q of
             Inr idxInt \<Rightarrow> (IntKey idxInt, diags)
           | Inl err \<Rightarrow>
               (NoKey, diags @ [invalidOperator (''Invalid module index: '' @ err @ ''.'')]))
      | CtyOther \<Rightarrow>
          (NoKey, diags @ [invalidOperator
             ''Invalid module key: must be either a string or an integer.'']))"

text \<open>
  The loop \<open>for len(remain) > 0\<close> with its state \<open>remain\<close>, \<open>mi\<close>, \<open>diags\<close>; the result
  is the state when the loop is left.
\<close>

fun parseModuleInstancePrefix_loop ::
  "Traversal \<Rightarrow> ModuleInstance \<Rightarrow> Diagnostics \<Rightarrow> ModuleInstance \<times> Traversal \<times> Diagnostics" where
  "parseModuleInstancePrefix_loop [] mi diags = (mi, [], diags)"
| "parseModuleInstancePrefix_loop (tt # remain1) mi diags =
     (let (next, diags1) = nextName tt diags in
      if next \<noteq> ''module'' then (mi, tt # remain1, diags1)
      else
        (case remain1 of
           [] \<Rightarrow> (mi, [], diags1 @ [invalidOperator
                    ''Prefix \"module.\" must be followed by a module name.''])
         | tt2 # remain2 \<Rightarrow>
             (let (moduleName, diags2) = moduleNameOf tt2 diags1 in
              (case remain2 of
                 TraverseIndex key # remain3 \<Rightarrow>
                   (let (k, diags3) = keyOfIndex key diags2 in
                    parseModuleInstancePrefix_loop remain3
                      (mi @ [\<lparr>Name = moduleName, InstanceKey = k\<rparr>]) diags3)
               | _ \<Rightarrow>
                   parseModuleInstancePrefix_loop remain2
                     (mi @ [\<lparr>Name = moduleName, InstanceKey = NoKey\<rparr>]) diags2))))"

declare parseModuleInstancePrefix_loop.simps(2) [simp del]

text \<open>The returned remainder: a copy whose first step, if an attribute, becomes a root.\<close>

fun normalizeRemain :: "Traversal \<Rightarrow> Traversal" where
  "normalizeRemain (TraverseAttr name # remain) = TraverseRoot name # remain"
| "normalizeRemain remain = remain"

definition parseModuleInstancePrefix ::
  "Traversal \<Rightarrow> ModuleInstance \<times> Traversal \<times> Diagnostics" where
  "parseModuleInstancePrefix traversal =
     (let (mi, remain, diags) = parseModuleInstancePrefix_loop traversal [] [] in
      (mi, normalizeRemain remain, diags))"

subsection \<open>parseModuleInstance\<close>

definition parseModuleInstance :: "Traversal \<Rightarrow> ModuleInstance \<times> Diagnostics" where
  "parseModuleInstance traversal =
     (let (mi, remain, diags) = parseModuleInstancePrefix traversal in
      if length remain \<noteq> 0 then
        (if length remain = length traversal then
           (mi, diags @ [invalidAddress
              ''A module instance address must begin with \"module.\".''])
         else
           (mi, diags @ [invalidAddress
              ''The module instance address is followed by additional invalid content.'']))
      else (mi, diags))"

subsection \<open>The address text syntax and ParseModuleInstanceStr\<close>

text \<open>
  Modelled from the spec: the traversal parser \<open>hclsyntax.ParseTraversalAbs\<close>, which
  belongs to the configuration language and is not part of these sources. The address
  text syntax is a sequence of dotted tokens: a name, then steps that are either a dot
  and a name, or a key in brackets, the key being a quoted string or a bare integer. A
  name starts with a letter or an underscore and goes on with letters, digits, underscores
  and dashes; a quoted string holds plain characters only (no quote, backslash or
  template marker). Any other text is a syntax error.
\<close>














subsection \<open>String\<close>








subsection \<open>Addresses that the text syntax can express\<close>








section \<open>Module graph nodes (terraform/graph_config_node_module.go)\<close>

subsection \<open>Configuration and the module node\<close>

text \<open>
  The parts of the configuration packages that the node reads: the name of the module
  call, and the outputs the called module declares, in the order of the configuration.
\<close>

record config_Output =
  Output_Name :: string

record config_Config =
  Outputs :: "config_Output list"

record config_Module =
  Module_Name :: string

record module_Tree =
  Config :: config_Config

record GraphNodeConfigModule =
  Path :: "string list"
  Module :: config_Module
  Tree :: module_Tree

definition GraphNodeConfigModule_Name :: "GraphNodeConfigModule \<Rightarrow> string" where
  "GraphNodeConfigModule_Name n = ''module.'' @ Module_Name (Module n)"

text \<open>
  \<open>DependableName\<close>: \<open>result\<close> starts as the one-element slice holding the node's name,
  and the loop appends one formatted name per output.
\<close>

definition DependableName :: "GraphNodeConfigModule \<Rightarrow> string list" where
  "DependableName n =
     (let config = Config (Tree n) in
      foldl (\<lambda>result out. result @ [GraphNodeConfigModule_Name n @ ''.'' @ Output_Name out])
        [GraphNodeConfigModule_Name n] (Outputs config))"

subsection \<open>Vertices and their capabilities\<close>

text \<open>
  A vertex of a subgraph is any value; flattening asks it for three things: the name
  \<open>dag.VertexName\<close> gives it, whether it implements \<open>graphNodeModuleSkippable\<close> (and then
  what \<open>FlattenSkip\<close> reports), and whether it implements \<open>graphNodeModuleWrappable\<close>,
  whose \<open>Name\<close> is the vertex name.
\<close>

record Node =
  VertexName :: string
  FlattenSkip :: "bool option"
  Wrappable :: bool

text \<open>
  \<open>graphNodeModuleFlatWrap\<close> embeds the wrappable vertex and adds \<open>Path\<close> and
  \<open>PathString\<close>. It is wrappable itself through the embedded interface, and it has no
  method \<open>FlattenSkip\<close>.
\<close>

datatype Vertex =
    Plain Node
  | FlatWrap (wrapped: Vertex) (FlatWrap_Path: "string list") (PathString: string)

fun Vertex_Name :: "Vertex \<Rightarrow> string" where
  "Vertex_Name (Plain n) = VertexName n"
| "Vertex_Name (FlatWrap wn path pathStr) = pathStr @ ''.'' @ Vertex_Name wn"

fun isSkipped :: "Vertex \<Rightarrow> bool" where
  "isSkipped (Plain n) = (case FlattenSkip n of Some skip \<Rightarrow> skip | None \<Rightarrow> False)"
| "isSkipped (FlatWrap wn path pathStr) = False"

fun isWrappable :: "Vertex \<Rightarrow> bool" where
  "isWrappable (Plain n) = Wrappable n"
| "isWrappable (FlatWrap wn path pathStr) = True"

subsection \<open>The graph\<close>

text \<open>
  Modelled from the spec: the graph, declared in a sibling file. It holds its path, its
  vertices and its edges. A vertex has an identity (in Go the pointer) apart from its
  value: the vertices are listed with their identities, in the order \<open>Vertices\<close> returns
  them, and an edge is a pair of identities.
\<close>

type_synonym vid = nat

record Graph =
  Graph_Path :: "string list"
  Graph_vertices :: "(vid \<times> Vertex) list"
  Graph_edges :: "(vid \<times> vid) list"

text \<open>Modelled from the spec: \<open>Graph.Vertices\<close>, every vertex currently in the graph.\<close>

definition Vertices :: "Graph \<Rightarrow> (vid \<times> Vertex) list" where
  "Vertices g = Graph_vertices g"

text \<open>
  Modelled from the spec: \<open>Graph.Remove\<close>, declared in a sibling file. A removed vertex
  leaves the graph with all its edges.
\<close>

definition Remove :: "Graph \<Rightarrow> vid \<Rightarrow> Graph" where
  "Remove g v =
     g\<lparr>Graph_vertices := filter (\<lambda>(i, x). i \<noteq> v) (Graph_vertices g),
       Graph_edges := filter (\<lambda>(a, b). a \<noteq> v \<and> b \<noteq> v) (Graph_edges g)\<rparr>"

text \<open>
  Modelled from the spec: \<open>Graph.Replace\<close>, declared in a sibling file. The vertex is
  replaced in place: the replacement takes over the identity, and with it every inbound
  and outbound edge.
\<close>

definition Replace :: "Graph \<Rightarrow> vid \<Rightarrow> Vertex \<Rightarrow> Graph" where
  "Replace g v replacement =
     g\<lparr>Graph_vertices := map (\<lambda>(i, x). if i = v then (i, replacement) else (i, x)) (Graph_vertices g)\<rparr>"

subsection \<open>The expanded module node and FlattenGraph\<close>

record graphNodeModuleExpanded =
  Original :: Vertex
  Graph :: Graph

definition Subgraph :: "graphNodeModuleExpanded \<Rightarrow> Graph" where
  "Subgraph n = Graph n"

fun Join :: "string list \<Rightarrow> string \<Rightarrow> string" where
  "Join [] sep = []"
| "Join [x] sep = x"
| "Join (x # y # xs) sep = x @ sep @ Join (y # xs) sep"

text \<open>
  The two ways \<open>FlattenGraph\<close> panics: slicing an empty path with \<open>graph.Path[1:]\<close>, and
  the explicit \<open>panic\<close> with its message.
\<close>

datatype panic = SliceBoundsOutOfRange | Panic string

text \<open>The loop that builds \<open>parts\<close> from the path without its first element.\<close>

definition pathParts :: "string list \<Rightarrow> string list" where
  "pathParts names = foldl (\<lambda>parts p. parts @ [''module'', p]) [] names"

text \<open>
  The loop over the snapshot \<open>graph.Vertices()\<close>; the graph is the state, and a panic
  ends the whole call.
\<close>

fun FlattenGraph_loop :: "string \<Rightarrow> (vid \<times> Vertex) list \<Rightarrow> Graph \<Rightarrow> panic + Graph" where
  "FlattenGraph_loop pathStr [] graph = Inr graph"
| "FlattenGraph_loop pathStr ((i, v) # vs) graph =
     (if isSkipped v then FlattenGraph_loop pathStr vs (Remove graph i)
      else if \<not> isWrappable v then Inl (Panic (''unwrappable node: '' @ Vertex_Name v))
      else FlattenGraph_loop pathStr vs
             (Replace graph i (FlatWrap v (Graph_Path graph) pathStr)))"

definition FlattenGraph :: "graphNodeModuleExpanded \<Rightarrow> panic + Graph" where
  "FlattenGraph n =
     (let graph = Subgraph n in
      case Graph_Path graph of
        [] \<Rightarrow> Inl SliceBoundsOutOfRange
      | first # names \<Rightarrow>
          (let pathStr = Join (pathParts names) ''.'' in
           FlattenGraph_loop pathStr (Vertices graph) graph))"

section \<open>Containment\<close>

lemma stepsMatchFrom_eq:
  "length m \<le> length to \<Longrightarrow>
   stepsMatchFrom i m to = Some (\<forall>j. i \<le> j \<and> j < length m \<longrightarrow> m ! j = to ! j)"
proof (induction i m to rule: stepsMatchFrom.induct)
  case (1 i m to)
  show ?case
  proof (cases "i < length m")
    case False
    then show ?thesis by (auto simp: stepsMatchFrom.simps [of i m to])
  next
    case True
    with "1.prems" have lt: "i < length to" by simp
    show ?thesis
    proof (cases "m ! i = to ! i")
      case False
      with True lt show ?thesis
        by (auto simp: stepsMatchFrom.simps [of i m to])
    next
      case eq: True
      have "stepsMatchFrom (Suc i) m to =
            Some (\<forall>j. Suc i \<le> j \<and> j < length m \<longrightarrow> m ! j = to ! j)"
        using "1.IH" [OF True lt] eq "1.prems" by simp
      moreover have "(\<forall>j. Suc i \<le> j \<and> j < length m \<longrightarrow> m ! j = to ! j) =
                     (\<forall>j. i \<le> j \<and> j < length m \<longrightarrow> m ! j = to ! j)"
        using eq by (metis Suc_leD Suc_leI le_neq_implies_less)
      ultimately show ?thesis
        using True lt eq by (simp add: stepsMatchFrom.simps [of i m to])
    qed
  qed
qed

text \<open>
  Claim C1. For module instance addresses \<open>a\<close> and \<open>b\<close>, \<open>TargetContains\<close> returns
  true exactly when \<open>b\<close> has at least as many steps as \<open>a\<close> and every step of \<open>a\<close>
  has the name and the instance key of the step of \<open>b\<close> at the same position. It never
  panics on the index. For a resource or resource instance address the answer is the one
  for its owning module instance, and for any other kind of target it is false.
\<close>

theorem TargetContains_prefix_rule:
  "TargetContains a (TModuleInstance b) =
     Some (length a \<le> length b \<and>
           (\<forall>i<length a. Name (a ! i) = Name (b ! i) \<and> InstanceKey (a ! i) = InstanceKey (b ! i)))
   \<and> TargetContains a (TAbsResource r) = TargetContains a (TModuleInstance (absResource_Module r))
   \<and> TargetContains a (TAbsResourceInstance ri) =
       TargetContains a (TModuleInstance (absResourceInstance_Module ri))
   \<and> TargetContains a TOther = Some False"
proof -
  have step_eq: "\<And>x y :: ModuleInstanceStep. (x = y) = (Name x = Name y \<and> InstanceKey x = InstanceKey y)"
    by auto
  have "TargetContains a (TModuleInstance b) =
     Some (length a \<le> length b \<and>
           (\<forall>i<length a. Name (a ! i) = Name (b ! i) \<and> InstanceKey (a ! i) = InstanceKey (b ! i)))"
  proof (cases "length b < length a")
    case True
    then show ?thesis by simp
  next
    case False
    then have le: "length a \<le> length b" by simp
    show ?thesis
      using False le stepsMatchFrom_eq [OF le, of 0] by (simp add: step_eq)
  qed
  then show ?thesis by simp
qed

theorem TargetContains_prefix_rule_witness:
  "TargetContains [\<lparr>Name = ''a'', InstanceKey = NoKey\<rparr>]
     (TModuleInstance [\<lparr>Name = ''a'', InstanceKey = NoKey\<rparr>, \<lparr>Name = ''b'', InstanceKey = StringKey ''x''\<rparr>])
     = Some True
   \<and> TargetContains [\<lparr>Name = ''a'', InstanceKey = NoKey\<rparr>, \<lparr>Name = ''b'', InstanceKey = StringKey ''x''\<rparr>]
     (TModuleInstance [\<lparr>Name = ''a'', InstanceKey = NoKey\<rparr>])
     = Some False
   \<and> TargetContains [\<lparr>Name = ''a'', InstanceKey = IntKey 1\<rparr>]
     (TAbsResource (AbsResource [\<lparr>Name = ''a'', InstanceKey = IntKey 2\<rparr>] ''aws_instance.web''))
     = Some False"
  using TargetContains_prefix_rule
          [of "[\<lparr>Name = ''a'', InstanceKey = NoKey\<rparr>]"
              "[\<lparr>Name = ''a'', InstanceKey = NoKey\<rparr>, \<lparr>Name = ''b'', InstanceKey = StringKey ''x''\<rparr>]"]
        TargetContains_prefix_rule
          [of "[\<lparr>Name = ''a'', InstanceKey = NoKey\<rparr>, \<lparr>Name = ''b'', InstanceKey = StringKey ''x''\<rparr>]"
              "[\<lparr>Name = ''a'', InstanceKey = NoKey\<rparr>]"]
        TargetContains_prefix_rule
          [of "[\<lparr>Name = ''a'', InstanceKey = IntKey 1\<rparr>]"
              "[\<lparr>Name = ''a'', InstanceKey = IntKey 2\<rparr>]"
              "AbsResource [\<lparr>Name = ''a'', InstanceKey = IntKey 2\<rparr>] ''aws_instance.web''"]
  by simp

section \<open>The address parser\<close>

lemma nextName_module:
  "fst (nextName tt diags) = ''module'' \<longleftrightarrow> tt = TraverseRoot ''module'' \<or> tt = TraverseAttr ''module''"
  by (auto simp: nextName_def split: Traverser.splits)

lemma nextName_module_diags:
  "tt = TraverseRoot ''module'' \<or> tt = TraverseAttr ''module'' \<Longrightarrow> nextName tt diags = (''module'', diags)"
  by (auto simp: nextName_def)

lemma loop_stop:
  "\<not> (tt = TraverseRoot ''module'' \<or> tt = TraverseAttr ''module'') \<Longrightarrow>
   parseModuleInstancePrefix_loop (tt # remain) mi diags = (mi, tt # remain, snd (nextName tt diags))"
  using nextName_module [of tt diags]
  by (auto simp: parseModuleInstancePrefix_loop.simps(2) split: prod.splits)

lemma loop_keyword_only:
  "tt = TraverseRoot ''module'' \<or> tt = TraverseAttr ''module'' \<Longrightarrow>
   parseModuleInstancePrefix_loop [tt] mi diags =
     (mi, [], diags @ [invalidOperator ''Prefix \"module.\" must be followed by a module name.''])"
  by (simp add: parseModuleInstancePrefix_loop.simps(2) nextName_module_diags)

lemma loop_index:
  "tt = TraverseRoot ''module'' \<or> tt = TraverseAttr ''module'' \<Longrightarrow>
   parseModuleInstancePrefix_loop (tt # tt2 # TraverseIndex key # remain) mi diags =
     parseModuleInstancePrefix_loop remain
       (mi @ [\<lparr>Name = fst (moduleNameOf tt2 diags),
               InstanceKey = fst (keyOfIndex key (snd (moduleNameOf tt2 diags)))\<rparr>])
       (snd (keyOfIndex key (snd (moduleNameOf tt2 diags))))"
  by (simp add: parseModuleInstancePrefix_loop.simps(2) nextName_module_diags split: prod.splits)

lemma loop_no_index:
  "tt = TraverseRoot ''module'' \<or> tt = TraverseAttr ''module'' \<Longrightarrow>
   (\<And>key rest. remain \<noteq> TraverseIndex key # rest) \<Longrightarrow>
   parseModuleInstancePrefix_loop (tt # tt2 # remain) mi diags =
     parseModuleInstancePrefix_loop remain
       (mi @ [\<lparr>Name = fst (moduleNameOf tt2 diags), InstanceKey = NoKey\<rparr>])
       (snd (moduleNameOf tt2 diags))"
  by (simp add: parseModuleInstancePrefix_loop.simps(2) nextName_module_diags
           split: prod.splits list.splits Traverser.splits)

text \<open>A case rule for the shapes of the input of the loop.\<close>

lemma loop_cases [case_names Nil Stop KeywordOnly Index NoIndex]:
  assumes "t = [] \<Longrightarrow> P"
    and "\<And>tt remain. t = tt # remain \<Longrightarrow> \<not> (tt = TraverseRoot ''module'' \<or> tt = TraverseAttr ''module'') \<Longrightarrow> P"
    and "\<And>tt. t = [tt] \<Longrightarrow> tt = TraverseRoot ''module'' \<or> tt = TraverseAttr ''module'' \<Longrightarrow> P"
    and "\<And>tt tt2 key remain. t = tt # tt2 # TraverseIndex key # remain \<Longrightarrow>
           tt = TraverseRoot ''module'' \<or> tt = TraverseAttr ''module'' \<Longrightarrow> P"
    and "\<And>tt tt2 remain. t = tt # tt2 # remain \<Longrightarrow>
           tt = TraverseRoot ''module'' \<or> tt = TraverseAttr ''module'' \<Longrightarrow>
           (\<And>key rest. remain \<noteq> TraverseIndex key # rest) \<Longrightarrow> P"
  shows P
proof (cases t)
  case Nil
  then show ?thesis by (rule assms(1))
next
  case (Cons tt r1)
  show ?thesis
  proof (cases "tt = TraverseRoot ''module'' \<or> tt = TraverseAttr ''module''")
    case False
    with Cons show ?thesis by (rule assms(2))
  next
    case kw: True
    show ?thesis
    proof (cases r1)
      case Nil
      with Cons kw show ?thesis by (auto intro: assms(3))
    next
      case c2: (Cons tt2 r2)
      show ?thesis
      proof (cases "\<exists>key rest. r2 = TraverseIndex key # rest")
        case True
        then obtain key rest where "r2 = TraverseIndex key # rest" by blast
        with Cons c2 kw show ?thesis by (auto intro: assms(4))
      next
        case False
        with Cons c2 kw show ?thesis by (auto intro: assms(5))
      qed
    qed
  qed
qed





lemma loop_remain_suffix:
  "\<exists>k. fst (snd (parseModuleInstancePrefix_loop t mi diags)) = drop k t \<and> (k = 0 \<or> 2 \<le> k)"
proof (induction t arbitrary: mi diags rule: length_induct)
  case (1 t)
  show ?case
  proof (cases t rule: loop_cases)
    case Nil
    then show ?thesis by auto
  next
    case (Stop tt remain)
    then have "fst (snd (parseModuleInstancePrefix_loop t mi diags)) = drop 0 t"
      by (simp add: loop_stop)
    then show ?thesis by blast
  next
    case (KeywordOnly tt)
    then have "fst (snd (parseModuleInstancePrefix_loop t mi diags)) = drop 2 t"
      by (simp add: loop_keyword_only)
    then show ?thesis by blast
  next
    case (Index tt tt2 key remain)
    from 1 [rule_format, of remain] Index(1)
    obtain k where k: "fst (snd (parseModuleInstancePrefix_loop remain
       (mi @ [\<lparr>Name = fst (moduleNameOf tt2 diags),
               InstanceKey = fst (keyOfIndex key (snd (moduleNameOf tt2 diags)))\<rparr>])
       (snd (keyOfIndex key (snd (moduleNameOf tt2 diags)))))) = drop k remain"
      by fastforce
    have "fst (snd (parseModuleInstancePrefix_loop t mi diags)) = drop (Suc (Suc (Suc k))) t"
      unfolding Index(1) loop_index [OF Index(2)] k by simp
    then show ?thesis by (intro exI [of _ "Suc (Suc (Suc k))"]) simp
  next
    case (NoIndex tt tt2 remain)
    from 1 [rule_format, of remain] NoIndex(1)
    obtain k where k: "fst (snd (parseModuleInstancePrefix_loop remain
       (mi @ [\<lparr>Name = fst (moduleNameOf tt2 diags), InstanceKey = NoKey\<rparr>])
       (snd (moduleNameOf tt2 diags)))) = drop k remain"
      by fastforce
    have "fst (snd (parseModuleInstancePrefix_loop t mi diags)) = drop (Suc (Suc k)) t"
      unfolding NoIndex(1) loop_no_index [OF NoIndex(2) NoIndex(3)] k by simp
    then show ?thesis by (intro exI [of _ "Suc (Suc k)"]) simp
  qed
qed

lemma loop_diags_summary:
  "d \<in> set (snd (snd (parseModuleInstancePrefix_loop t mi diags))) \<Longrightarrow>
   d \<in> set diags \<or> Summary d = ''Invalid address operator''"
proof (induction t arbitrary: mi diags rule: length_induct)
  case (1 t)
  have mn: "\<And>tt2 ds. d \<in> set (snd (moduleNameOf tt2 ds)) \<Longrightarrow>
              d \<in> set ds \<or> Summary d = ''Invalid address operator''"
    by (auto simp: moduleNameOf_def invalidOperator_def split: Traverser.splits)
  have ki: "\<And>key ds. d \<in> set (snd (keyOfIndex key ds)) \<Longrightarrow>
              d \<in> set ds \<or> Summary d = ''Invalid address operator''"
    by (auto simp: keyOfIndex_def invalidOperator_def split: cty_value.splits sum.splits)
  show ?case
  proof (cases t rule: loop_cases)
    case Nil
    with "1.prems" show ?thesis by simp
  next
    case (Stop tt remain)
    with "1.prems" show ?thesis
      by (auto simp: loop_stop nextName_def invalidOperator_def split: Traverser.splits)
  next
    case (KeywordOnly tt)
    with "1.prems" show ?thesis by (auto simp: loop_keyword_only invalidOperator_def)
  next
    case (Index tt tt2 key remain)
    from "1.prems" have "d \<in> set (snd (snd (parseModuleInstancePrefix_loop remain
       (mi @ [\<lparr>Name = fst (moduleNameOf tt2 diags),
               InstanceKey = fst (keyOfIndex key (snd (moduleNameOf tt2 diags)))\<rparr>])
       (snd (keyOfIndex key (snd (moduleNameOf tt2 diags)))))))"
      unfolding Index(1) loop_index [OF Index(2)] .
    with "1.IH" [rule_format, of remain] Index(1)
    have "d \<in> set (snd (keyOfIndex key (snd (moduleNameOf tt2 diags)))) \<or>
          Summary d = ''Invalid address operator''"
      by fastforce
    then show ?thesis using ki mn by blast
  next
    case (NoIndex tt tt2 remain)
    from "1.prems" have "d \<in> set (snd (snd (parseModuleInstancePrefix_loop remain
       (mi @ [\<lparr>Name = fst (moduleNameOf tt2 diags), InstanceKey = NoKey\<rparr>])
       (snd (moduleNameOf tt2 diags)))))"
      unfolding NoIndex(1) loop_no_index [OF NoIndex(2) NoIndex(3)] .
    with "1.IH" [rule_format, of remain] NoIndex(1)
    have "d \<in> set (snd (moduleNameOf tt2 diags)) \<or> Summary d = ''Invalid address operator''"
      by fastforce
    then show ?thesis using mn by blast
  qed
qed

lemma length_normalizeRemain [simp]: "length (normalizeRemain t) = length t"
  by (induction t rule: normalizeRemain.induct) auto

lemma normalizeRemain_Nil [simp]: "normalizeRemain t = [] \<longleftrightarrow> t = []"
  by (induction t rule: normalizeRemain.induct) auto

lemma prefix_remain_cases:
  "fst (snd (parseModuleInstancePrefix t)) = normalizeRemain t \<or>
   length (fst (snd (parseModuleInstancePrefix t))) < length t"
proof -
  obtain k where k: "fst (snd (parseModuleInstancePrefix_loop t [] [])) = drop k t" "k = 0 \<or> 2 \<le> k"
    using loop_remain_suffix [of t "[]" "[]"] by blast
  have R: "fst (snd (parseModuleInstancePrefix t)) = normalizeRemain (drop k t)"
    using k(1) by (auto simp: parseModuleInstancePrefix_def split: prod.splits)
  show ?thesis
  proof (cases "k = 0 \<or> t = []")
    case True
    then show ?thesis using R by auto
  next
    case False
    then show ?thesis using R by simp
  qed
qed


text \<open>
  Claim C2. After the keyword \<open>module\<close>, a step that is not a plain name should end the
  parse with the steps consumed so far. The code records the diagnostic but goes on: for
  the traversal of \<open>module["x"]\<close> it returns one step with the empty name, and for the
  traversal of \<open>module[0].module.foo\<close> it returns that step and then the step \<open>foo\<close>.
\<close>

theorem module_keyword_without_name_appends_step:
  "parseModuleInstancePrefix [TraverseRoot ''module'', TraverseIndex (CtyString ''x'')] =
     ([\<lparr>Name = [], InstanceKey = NoKey\<rparr>], [],
      [invalidOperator ''Prefix \"module.\" must be followed by a module name.''])
   \<and> parseModuleInstancePrefix
       [TraverseRoot ''module'', TraverseIndex (CtyNumber 0), TraverseAttr ''module'', TraverseAttr ''foo''] =
     ([\<lparr>Name = [], InstanceKey = NoKey\<rparr>, \<lparr>Name = ''foo'', InstanceKey = NoKey\<rparr>], [],
      [invalidOperator ''Prefix \"module.\" must be followed by a module name.''])"
  by (simp add: parseModuleInstancePrefix_def loop_no_index loop_index moduleNameOf_def)



text \<open>
  Claim C5. \<open>parseModuleInstance\<close> appends to the diagnostics of the prefix parse the
  diagnostic "must begin with module." exactly when the remainder is non-empty and is the
  whole input (no step was consumed), and the diagnostic "followed by additional invalid
  content." exactly when the remainder is non-empty and shorter than the input; with an
  empty remainder it appends nothing. The prefix parse itself never produces either
  diagnostic. The remainder is compared with the input after the normalization of its first
  step, which leaves an input that begins with a root step as it is.
\<close>

theorem parseModuleInstance_remainder_diagnostics:
  "snd (parseModuleInstance t) =
     snd (snd (parseModuleInstancePrefix t)) @
     (if fst (snd (parseModuleInstancePrefix t)) = [] then []
      else if fst (snd (parseModuleInstancePrefix t)) = normalizeRemain t
      then [invalidAddress ''A module instance address must begin with \"module.\".'']
      else [invalidAddress ''The module instance address is followed by additional invalid content.''])
   \<and> (invalidAddress ''A module instance address must begin with \"module.\".''
         \<in> set (snd (parseModuleInstance t))
       \<longleftrightarrow> fst (snd (parseModuleInstancePrefix t)) \<noteq> [] \<and>
           fst (snd (parseModuleInstancePrefix t)) = normalizeRemain t)
   \<and> (invalidAddress ''The module instance address is followed by additional invalid content.''
         \<in> set (snd (parseModuleInstance t))
       \<longleftrightarrow> fst (snd (parseModuleInstancePrefix t)) \<noteq> [] \<and>
           length (fst (snd (parseModuleInstancePrefix t))) < length t)
   \<and> (fst (snd (parseModuleInstancePrefix t)) = normalizeRemain t \<or>
       length (fst (snd (parseModuleInstancePrefix t))) < length t)
   \<and> normalizeRemain (TraverseRoot name # rest) = TraverseRoot name # rest"
proof -
  define R where "R = fst (snd (parseModuleInstancePrefix t))"
  define D where "D = snd (snd (parseModuleInstancePrefix t))"
  define A where "A = invalidAddress ''A module instance address must begin with \"module.\".''"
  define B where "B = invalidAddress ''The module instance address is followed by additional invalid content.''"
  have cases: "R = normalizeRemain t \<or> length R < length t"
    unfolding R_def by (rule prefix_remain_cases)
  have len: "length R = length t \<longleftrightarrow> R = normalizeRemain t"
    using cases by auto
  have D_loop: "D = snd (snd (parseModuleInstancePrefix_loop t [] []))"
    unfolding D_def by (simp add: parseModuleInstancePrefix_def split: prod.splits)
  have sum: "Summary d = ''Invalid address operator''" if "d \<in> set D" for d
    using loop_diags_summary [of d t "[]" "[]"] that unfolding D_loop by simp
  have notA: "A \<notin> set D" using sum [of A] by (auto simp: A_def invalidAddress_def)
  have notB: "B \<notin> set D" using sum [of B] by (auto simp: B_def invalidAddress_def)
  have AB: "A \<noteq> B" by (simp add: A_def B_def invalidAddress_def)
  have eq: "snd (parseModuleInstance t) =
     D @ (if R = [] then [] else if R = normalizeRemain t then [A] else [B])"
    using len
    by (auto simp: parseModuleInstance_def R_def D_def A_def B_def split: prod.splits)
  have iffA: "A \<in> set (snd (parseModuleInstance t)) \<longleftrightarrow> R \<noteq> [] \<and> R = normalizeRemain t"
    unfolding eq using notA AB by auto
  have iffB: "B \<in> set (snd (parseModuleInstance t)) \<longleftrightarrow> R \<noteq> [] \<and> length R < length t"
    unfolding eq using notB AB cases len by auto
  show ?thesis
    using eq iffA iffB cases unfolding R_def D_def A_def B_def by simp
qed

section \<open>Module graph nodes: names and flattening\<close>

lemma Graph_Path_Remove [simp]: "Graph_Path (Remove g v) = Graph_Path g"
  by (simp add: Remove_def)

lemma Graph_Path_Replace [simp]: "Graph_Path (Replace g v w) = Graph_Path g"
  by (simp add: Replace_def)

lemma Remove_fresh:
  assumes "Graph_vertices g = done @ (i, v) # vs" and "distinct (map fst (done @ (i, v) # vs))"
  shows "Graph_vertices (Remove g i) = done @ vs"
proof -
  have "filter (\<lambda>(j, x). j \<noteq> i) done = done"
    using assms(2) by (intro filter_True) (auto simp: rev_image_eqI)
  moreover have "filter (\<lambda>(j, x). j \<noteq> i) vs = vs"
    using assms(2) by (intro filter_True) (auto simp: rev_image_eqI)
  ultimately show ?thesis by (simp add: Remove_def assms(1))
qed

lemma Replace_fresh:
  assumes "Graph_vertices g = done @ (i, v) # vs" and "distinct (map fst (done @ (i, v) # vs))"
  shows "Graph_vertices (Replace g i w) = (done @ [(i, w)]) @ vs"
proof -
  have "map (\<lambda>(j, x). if j = i then (j, w) else (j, x)) done = done"
    using assms(2) by (intro map_idI) (auto simp: rev_image_eqI)
  moreover have "map (\<lambda>(j, x). if j = i then (j, w) else (j, x)) vs = vs"
    using assms(2) by (intro map_idI) (auto simp: rev_image_eqI)
  ultimately show ?thesis by (simp add: Replace_def assms(1))
qed

lemma FlattenGraph_loop_result:
  assumes "Graph_vertices g = done @ vs"
    and "distinct (map fst (done @ vs))"
    and "\<forall>(i, v) \<in> set vs. isSkipped v \<or> isWrappable v"
  shows "FlattenGraph_loop pathStr vs g =
     Inr (g\<lparr>Graph_vertices :=
              done @ map (\<lambda>(i, v). (i, FlatWrap v (Graph_Path g) pathStr))
                       (filter (\<lambda>(i, v). \<not> isSkipped v) vs),
            Graph_edges :=
              filter (\<lambda>(a, b). a \<notin> set (map fst (filter (\<lambda>(i, v). isSkipped v) vs)) \<and>
                               b \<notin> set (map fst (filter (\<lambda>(i, v). isSkipped v) vs)))
                (Graph_edges g)\<rparr>)"
  using assms
proof (induction vs arbitrary: g "done")
  case Nil
  then show ?case by simp
next
  case (Cons p vs)
  obtain i v where p: "p = (i, v)" by (cases p)
  show ?case
  proof (cases "isSkipped v")
    case True
    have gv: "Graph_vertices (Remove g i) = done @ vs"
      using Remove_fresh Cons.prems(1,2) unfolding p by blast
    have d: "distinct (map fst (done @ vs))"
      using Cons.prems(2) by simp
    have ok: "\<forall>(i, v) \<in> set vs. isSkipped v \<or> isWrappable v"
      using Cons.prems(3) by simp
    have E: "Graph_edges (Remove g i) = filter (\<lambda>(a, b). a \<noteq> i \<and> b \<noteq> i) (Graph_edges g)"
      by (simp add: Remove_def)
    have R: "Remove g i\<lparr>Graph_vertices := X, Graph_edges := Y\<rparr> = g\<lparr>Graph_vertices := X, Graph_edges := Y\<rparr>" for X Y
      by (simp add: Remove_def)
    show ?thesis
      unfolding p using True
      by (simp add: Cons.IH [OF gv d ok] E R split_def conj_ac)
  next
    case False
    then have w: "isWrappable v" using Cons.prems(3) p by auto
    let ?w = "FlatWrap v (Graph_Path g) pathStr"
    have gv: "Graph_vertices (Replace g i ?w) = (done @ [(i, ?w)]) @ vs"
      using Replace_fresh Cons.prems(1,2) unfolding p by blast
    have d: "distinct (map fst ((done @ [(i, ?w)]) @ vs))"
      using Cons.prems(2) unfolding p by simp
    have ok: "\<forall>(i, v) \<in> set vs. isSkipped v \<or> isWrappable v"
      using Cons.prems(3) by simp
    have E: "Graph_edges (Replace g i ?w) = Graph_edges g"
      by (simp add: Replace_def)
    have R: "Replace g i ?w\<lparr>Graph_vertices := X, Graph_edges := Y\<rparr> = g\<lparr>Graph_vertices := X, Graph_edges := Y\<rparr>" for X Y
      by (simp add: Replace_def)
    show ?thesis
      unfolding p using False w
      by (simp add: Cons.IH [OF gv d ok] E R)
  qed
qed

lemma pathParts_concat: "pathParts names = concat (map (\<lambda>p. [''module'', p]) names)"
proof -
  have "foldl (\<lambda>parts p. parts @ [''module'', p]) acc names = acc @ concat (map (\<lambda>p. [''module'', p]) names)" for acc
    by (induction names arbitrary: acc) auto
  then show ?thesis by (simp add: pathParts_def)
qed

lemma FlattenGraph_loop_panics:
  assumes "(i, v) \<in> set vs" and "\<not> isSkipped v" and "\<not> isWrappable v"
  shows "\<exists>j x. (j, x) \<in> set vs \<and> \<not> isSkipped x \<and> \<not> isWrappable x \<and>
           FlattenGraph_loop pathStr vs g = Inl (Panic (''unwrappable node: '' @ Vertex_Name x))"
  using assms
proof (induction vs arbitrary: g)
  case Nil
  then show ?case by simp
next
  case (Cons p vs)
  obtain j x where p: "p = (j, x)" by (cases p)
  show ?case
  proof (cases "\<not> isSkipped x \<and> \<not> isWrappable x")
    case True
    then show ?thesis unfolding p by (intro exI [of _ j] exI [of _ x]) simp
  next
    case False
    then have "(i, v) \<in> set vs" using Cons.prems p by auto
    from Cons.IH [OF this Cons.prems(2,3)] False show ?thesis
      unfolding p by (cases "isSkipped x") (simp; blast)+
  qed
qed


lemma FlattenGraph_result:
  assumes "Graph_Path (Subgraph n) = first # names"
    and "distinct (map fst (Vertices (Subgraph n)))"
    and "\<forall>(i, v) \<in> set (Vertices (Subgraph n)). isSkipped v \<or> isWrappable v"
  shows "FlattenGraph n =
     Inr ((Subgraph n)
       \<lparr>Graph_vertices :=
          map (\<lambda>(i, v). (i, FlatWrap v (first # names) (Join (pathParts names) ''.'')))
            (filter (\<lambda>(i, v). \<not> isSkipped v) (Vertices (Subgraph n))),
        Graph_edges :=
          filter (\<lambda>(a, b).
                    a \<notin> set (map fst (filter (\<lambda>(i, v). isSkipped v) (Vertices (Subgraph n)))) \<and>
                    b \<notin> set (map fst (filter (\<lambda>(i, v). isSkipped v) (Vertices (Subgraph n)))))
            (Graph_edges (Subgraph n))\<rparr>)"
proof -
  have "Graph_vertices (Subgraph n) = [] @ Vertices (Subgraph n)"
    by (simp add: Vertices_def)
  moreover have "distinct (map fst ([] @ Vertices (Subgraph n)))"
    using assms(2) by simp
  ultimately have "FlattenGraph_loop (Join (pathParts names) ''.'') (Vertices (Subgraph n)) (Subgraph n) =
     Inr ((Subgraph n)
       \<lparr>Graph_vertices :=
          [] @ map (\<lambda>(i, v). (i, FlatWrap v (Graph_Path (Subgraph n)) (Join (pathParts names) ''.'')))
            (filter (\<lambda>(i, v). \<not> isSkipped v) (Vertices (Subgraph n))),
        Graph_edges :=
          filter (\<lambda>(a, b).
                    a \<notin> set (map fst (filter (\<lambda>(i, v). isSkipped v) (Vertices (Subgraph n)))) \<and>
                    b \<notin> set (map fst (filter (\<lambda>(i, v). isSkipped v) (Vertices (Subgraph n)))))
            (Graph_edges (Subgraph n))\<rparr>)"
    using assms(3) by (rule FlattenGraph_loop_result)
  then show ?thesis
    by (simp add: FlattenGraph_def Let_def assms(1))
qed

lemma foldl_append_map: "foldl (\<lambda>result x. result @ [f x]) acc xs = acc @ map f xs"
  by (induction xs arbitrary: acc) auto

text \<open>
  Claim C6, as stated: after the node's own name, \<open>DependableName\<close> lists one name
  \<open><callname>.<outputname>\<close> per declared output. For the call \<open>consul\<close> with the output
  \<open>addr\<close> the code returns \<open>module.consul.addr\<close>, not \<open>consul.addr\<close>.
\<close>

theorem DependableName_callname_counterexample:
  "DependableName
     \<lparr>Path = [''root'', ''consul''], Module = \<lparr>Module_Name = ''consul''\<rparr>,
      Tree = \<lparr>Config = \<lparr>Outputs = [\<lparr>Output_Name = ''addr''\<rparr>]\<rparr>\<rparr>\<rparr>
     = [''module.consul'', ''module.consul.addr'']
   \<and> DependableName
     \<lparr>Path = [''root'', ''consul''], Module = \<lparr>Module_Name = ''consul''\<rparr>,
      Tree = \<lparr>Config = \<lparr>Outputs = [\<lparr>Output_Name = ''addr''\<rparr>]\<rparr>\<rparr>\<rparr>
     \<noteq> [''module.consul'', ''consul'' @ ''.'' @ ''addr'']"
  by (simp add: DependableName_def GraphNodeConfigModule_Name_def)

text \<open>
  Claim C6, amended. \<open>DependableName\<close> returns the node's own name \<open>module.<callname>\<close>
  followed by one name per declared output, in the order of the declarations, each of the
  form \<open>module.<callname>.<outputname>\<close>: the output name qualified by the node's name.
\<close>

theorem DependableName_qualified_by_node_name:
  "DependableName n =
     GraphNodeConfigModule_Name n #
     map (\<lambda>out. ''module.'' @ Module_Name (Module n) @ ''.'' @ Output_Name out)
       (Outputs (Config (Tree n)))
   \<and> GraphNodeConfigModule_Name n = ''module.'' @ Module_Name (Module n)"
  by (simp add: DependableName_def GraphNodeConfigModule_Name_def foldl_append_map)

text \<open>
  Claim C7. For a subgraph whose path is a first (root) element followed by \<open>names\<close>,
  whose vertices have distinct identities and are each skipped or wrappable,
  \<open>FlattenGraph\<close> returns a graph whose vertices are the vertices that are not skipped,
  each wrapped with the one path string that joins with dots the segments \<open>module\<close>,
  \<open>name\<close> for every name of \<open>names\<close>; the name of each wrapped vertex is the path string,
  a dot and the original name. For the path \<open>[root, net]\<close> and the vertex
  \<open>aws_instance.web\<close> the name is \<open>module.net.aws_instance.web\<close>.
\<close>

theorem FlattenGraph_path_qualified_names:
  assumes "Graph_Path (Subgraph n) = first # names"
    and "distinct (map fst (Vertices (Subgraph n)))"
    and "\<forall>(i, v) \<in> set (Vertices (Subgraph n)). isSkipped v \<or> isWrappable v"
  shows "\<exists>g'. FlattenGraph n = Inr g' \<and>
           Graph_vertices g' =
             map (\<lambda>(i, v). (i, FlatWrap v (first # names)
                                  (Join (concat (map (\<lambda>p. [''module'', p]) names)) ''.'')))
               (filter (\<lambda>(i, v). \<not> isSkipped v) (Vertices (Subgraph n))) \<and>
           map (\<lambda>(i, w). (i, Vertex_Name w)) (Graph_vertices g') =
             map (\<lambda>(i, v). (i, Join (concat (map (\<lambda>p. [''module'', p]) names)) ''.'' @ ''.'' @ Vertex_Name v))
               (filter (\<lambda>(i, v). \<not> isSkipped v) (Vertices (Subgraph n)))"
  using FlattenGraph_result [OF assms] by (simp add: pathParts_concat split_def)

theorem FlattenGraph_path_qualified_names_witness:
  "FlattenGraph
     \<lparr>Original = Plain \<lparr>VertexName = ''module.net'', FlattenSkip = None, Wrappable = True\<rparr>,
      Graph = \<lparr>Graph_Path = [''root'', ''net''],
               Graph_vertices =
                 [(0, Plain \<lparr>VertexName = ''aws_instance.web'', FlattenSkip = None, Wrappable = True\<rparr>),
                  (1, Plain \<lparr>VertexName = ''var.x'', FlattenSkip = Some True, Wrappable = True\<rparr>)],
               Graph_edges = [(0, 1)]\<rparr>\<rparr>
   = Inr \<lparr>Graph_Path = [''root'', ''net''],
          Graph_vertices =
            [(0, FlatWrap (Plain \<lparr>VertexName = ''aws_instance.web'', FlattenSkip = None, Wrappable = True\<rparr>)
                   [''root'', ''net''] ''module.net'')],
          Graph_edges = []\<rparr>
   \<and> Vertex_Name
       (FlatWrap (Plain \<lparr>VertexName = ''aws_instance.web'', FlattenSkip = None, Wrappable = True\<rparr>)
          [''root'', ''net''] ''module.net'')
     = ''module.net.aws_instance.web''"
proof -
  let ?n = "\<lparr>Original = Plain \<lparr>VertexName = ''module.net'', FlattenSkip = None, Wrappable = True\<rparr>,
      Graph = \<lparr>Graph_Path = [''root'', ''net''],
               Graph_vertices =
                 [(0, Plain \<lparr>VertexName = ''aws_instance.web'', FlattenSkip = None, Wrappable = True\<rparr>),
                  (1, Plain \<lparr>VertexName = ''var.x'', FlattenSkip = Some True, Wrappable = True\<rparr>)],
               Graph_edges = [(0, 1)]\<rparr>\<rparr>"
  have 1: "Graph_Path (Subgraph ?n) = ''root'' # [''net'']" by (simp add: Subgraph_def)
  have 2: "distinct (map fst (Vertices (Subgraph ?n)))" by (simp add: Subgraph_def Vertices_def)
  have 3: "\<forall>(i, v) \<in> set (Vertices (Subgraph ?n)). isSkipped v \<or> isWrappable v"
    by (simp add: Subgraph_def Vertices_def)
  obtain g' where g': "FlattenGraph ?n = Inr g'"
    "Graph_vertices g' =
             map (\<lambda>(i, v). (i, FlatWrap v (''root'' # [''net''])
                                  (Join (concat (map (\<lambda>p. [''module'', p]) [''net''])) ''.'')))
               (filter (\<lambda>(i, v). \<not> isSkipped v) (Vertices (Subgraph ?n)))"
    using FlattenGraph_path_qualified_names [OF 1 2 3] by blast
  have "FlattenGraph ?n = Inr \<lparr>Graph_Path = [''root'', ''net''],
          Graph_vertices =
            [(0, FlatWrap (Plain \<lparr>VertexName = ''aws_instance.web'', FlattenSkip = None, Wrappable = True\<rparr>)
                   [''root'', ''net''] ''module.net'')],
          Graph_edges = []\<rparr>"
    by (simp add: FlattenGraph_def Let_def Subgraph_def Vertices_def pathParts_def Remove_def Replace_def)
  with g' show ?thesis by simp
qed


text \<open>
  Claim C8. Under the same conditions, the vertices of the flattened graph are, by
  identity and in order, exactly the vertices that are not skipped; its edges are the
  edges with no skipped end; and the edges between retained vertices are the same before
  and after, so their number is unchanged.
\<close>

theorem FlattenGraph_removes_skipped_keeps_edges:
  assumes "Graph_Path (Subgraph n) = first # names"
    and "distinct (map fst (Vertices (Subgraph n)))"
    and "\<forall>(i, v) \<in> set (Vertices (Subgraph n)). isSkipped v \<or> isWrappable v"
  shows "\<exists>g'. FlattenGraph n = Inr g' \<and>
           map fst (Graph_vertices g') =
             map fst (filter (\<lambda>(i, v). \<not> isSkipped v) (Vertices (Subgraph n))) \<and>
           Graph_edges g' =
             filter (\<lambda>(a, b).
                       a \<notin> set (map fst (filter (\<lambda>(i, v). isSkipped v) (Vertices (Subgraph n)))) \<and>
                       b \<notin> set (map fst (filter (\<lambda>(i, v). isSkipped v) (Vertices (Subgraph n)))))
               (Graph_edges (Subgraph n)) \<and>
           filter (\<lambda>(a, b). a \<in> set (map fst (Graph_vertices g')) \<and>
                             b \<in> set (map fst (Graph_vertices g')))
             (Graph_edges g') =
           filter (\<lambda>(a, b). a \<in> set (map fst (Graph_vertices g')) \<and>
                             b \<in> set (map fst (Graph_vertices g')))
             (Graph_edges (Subgraph n)) \<and>
           length (filter (\<lambda>(a, b). a \<in> set (map fst (Graph_vertices g')) \<and>
                                     b \<in> set (map fst (Graph_vertices g')))
                     (Graph_edges g')) =
           length (filter (\<lambda>(a, b). a \<in> set (map fst (Graph_vertices g')) \<and>
                                     b \<in> set (map fst (Graph_vertices g')))
                     (Graph_edges (Subgraph n)))"
proof -
  let ?vs = "Vertices (Subgraph n)"
  let ?kept = "map fst (filter (\<lambda>(i, v). \<not> isSkipped v) ?vs)"
  let ?gone = "map fst (filter (\<lambda>(i, v). isSkipped v) ?vs)"
  define g' where "g' = (Subgraph n)
       \<lparr>Graph_vertices :=
          map (\<lambda>(i, v). (i, FlatWrap v (first # names) (Join (pathParts names) ''.'')))
            (filter (\<lambda>(i, v). \<not> isSkipped v) ?vs),
        Graph_edges :=
          filter (\<lambda>(a, b). a \<notin> set ?gone \<and> b \<notin> set ?gone) (Graph_edges (Subgraph n))\<rparr>"
  have res: "FlattenGraph n = Inr g'"
    unfolding g'_def using assms by (rule FlattenGraph_result)
  have ids: "map fst (Graph_vertices g') = ?kept"
    by (simp add: g'_def split_def comp_def)
  have edges: "Graph_edges g' =
      filter (\<lambda>(a, b). a \<notin> set ?gone \<and> b \<notin> set ?gone) (Graph_edges (Subgraph n))"
    by (simp add: g'_def)
  have disj: "i \<notin> set ?gone" if "i \<in> set ?kept" for i
  proof
    assume "i \<in> set ?gone"
    then obtain v where v: "(i, v) \<in> set ?vs" "isSkipped v" by auto
    from that obtain w where w: "(i, w) \<in> set ?vs" "\<not> isSkipped w" by auto
    from assms(2) v(1) w(1) have "v = w"
      by (rule eq_key_imp_eq_value)
    with v(2) w(2) show False by simp
  qed
  have keep: "filter (\<lambda>(a, b). a \<in> set ?kept \<and> b \<in> set ?kept) (Graph_edges g') =
              filter (\<lambda>(a, b). a \<in> set ?kept \<and> b \<in> set ?kept) (Graph_edges (Subgraph n))"
    unfolding edges using disj by (auto intro!: filter_cong)
  show ?thesis
  proof (intro exI [of _ g'] conjI)
    show "FlattenGraph n = Inr g'" by (rule res)
    show "map fst (Graph_vertices g') = ?kept" by (rule ids)
    show "Graph_edges g' =
      filter (\<lambda>(a, b). a \<notin> set ?gone \<and> b \<notin> set ?gone) (Graph_edges (Subgraph n))"
      by (rule edges)
    show "filter (\<lambda>(a, b). a \<in> set (map fst (Graph_vertices g')) \<and>
                             b \<in> set (map fst (Graph_vertices g')))
             (Graph_edges g') =
           filter (\<lambda>(a, b). a \<in> set (map fst (Graph_vertices g')) \<and>
                             b \<in> set (map fst (Graph_vertices g')))
             (Graph_edges (Subgraph n))"
      unfolding ids by (rule keep)
    then show "length (filter (\<lambda>(a, b). a \<in> set (map fst (Graph_vertices g')) \<and>
                                     b \<in> set (map fst (Graph_vertices g')))
                     (Graph_edges g')) =
           length (filter (\<lambda>(a, b). a \<in> set (map fst (Graph_vertices g')) \<and>
                                     b \<in> set (map fst (Graph_vertices g')))
                     (Graph_edges (Subgraph n)))"
      by simp
  qed
qed

theorem FlattenGraph_removes_skipped_keeps_edges_witness:
  "FlattenGraph
     \<lparr>Original = Plain \<lparr>VertexName = ''module.net'', FlattenSkip = None, Wrappable = True\<rparr>,
      Graph = \<lparr>Graph_Path = [''root'', ''net''],
               Graph_vertices =
                 [(0, Plain \<lparr>VertexName = ''aws_instance.web'', FlattenSkip = None, Wrappable = True\<rparr>),
                  (1, Plain \<lparr>VertexName = ''var.x'', FlattenSkip = Some True, Wrappable = True\<rparr>),
                  (2, Plain \<lparr>VertexName = ''aws_eip.ip'', FlattenSkip = Some False, Wrappable = True\<rparr>)],
               Graph_edges = [(0, 1), (2, 0), (2, 1)]\<rparr>\<rparr>
   = Inr \<lparr>Graph_Path = [''root'', ''net''],
          Graph_vertices =
            [(0, FlatWrap (Plain \<lparr>VertexName = ''aws_instance.web'', FlattenSkip = None, Wrappable = True\<rparr>)
                   [''root'', ''net''] ''module.net''),
             (2, FlatWrap (Plain \<lparr>VertexName = ''aws_eip.ip'', FlattenSkip = Some False, Wrappable = True\<rparr>)
                   [''root'', ''net''] ''module.net'')],
          Graph_edges = [(2, 0)]\<rparr>"
proof -
  let ?n = "\<lparr>Original = Plain \<lparr>VertexName = ''module.net'', FlattenSkip = None, Wrappable = True\<rparr>,
      Graph = \<lparr>Graph_Path = [''root'', ''net''],
               Graph_vertices =
                 [(0, Plain \<lparr>VertexName = ''aws_instance.web'', FlattenSkip = None, Wrappable = True\<rparr>),
                  (1, Plain \<lparr>VertexName = ''var.x'', FlattenSkip = Some True, Wrappable = True\<rparr>),
                  (2, Plain \<lparr>VertexName = ''aws_eip.ip'', FlattenSkip = Some False, Wrappable = True\<rparr>)],
               Graph_edges = [(0, 1), (2, 0), (2, 1)]\<rparr>\<rparr>"
  have 1: "Graph_Path (Subgraph ?n) = ''root'' # [''net'']" by (simp add: Subgraph_def)
  have 2: "distinct (map fst (Vertices (Subgraph ?n)))" by (simp add: Subgraph_def Vertices_def)
  have 3: "\<forall>(i, v) \<in> set (Vertices (Subgraph ?n)). isSkipped v \<or> isWrappable v"
    by (simp add: Subgraph_def Vertices_def)
  obtain g' where g': "FlattenGraph ?n = Inr g'"
    "map fst (Graph_vertices g') =
       map fst (filter (\<lambda>(i, v). \<not> isSkipped v) (Vertices (Subgraph ?n)))"
    using FlattenGraph_removes_skipped_keeps_edges [OF 1 2 3] by blast
  have "FlattenGraph ?n = Inr \<lparr>Graph_Path = [''root'', ''net''],
          Graph_vertices =
            [(0, FlatWrap (Plain \<lparr>VertexName = ''aws_instance.web'', FlattenSkip = None, Wrappable = True\<rparr>)
                   [''root'', ''net''] ''module.net''),
             (2, FlatWrap (Plain \<lparr>VertexName = ''aws_eip.ip'', FlattenSkip = Some False, Wrappable = True\<rparr>)
                   [''root'', ''net''] ''module.net'')],
          Graph_edges = [(2, 0)]\<rparr>"
    by (simp add: FlattenGraph_def Let_def Subgraph_def Vertices_def pathParts_def Remove_def Replace_def)
  with g' show ?thesis by simp
qed

text \<open>
  Claim C9. If the subgraph holds a vertex that is neither skipped nor wrappable,
  \<open>FlattenGraph\<close> ends in a panic and returns no graph; unless the path is empty (then
  slicing the path panics first), the panic is the one raised for an unwrappable vertex
  of the subgraph, with its name in the message.
\<close>

theorem FlattenGraph_unwrappable_panics:
  assumes "(i, v) \<in> set (Vertices (Subgraph n))"
    and "\<not> isSkipped v"
    and "\<not> isWrappable v"
  shows "(\<exists>p. FlattenGraph n = Inl p) \<and>
         (Graph_Path (Subgraph n) = [] \<or>
          (\<exists>j x. (j, x) \<in> set (Vertices (Subgraph n)) \<and> \<not> isSkipped x \<and> \<not> isWrappable x \<and>
                 FlattenGraph n = Inl (Panic (''unwrappable node: '' @ Vertex_Name x))))"
proof (cases "Graph_Path (Subgraph n)")
  case Nil
  then show ?thesis by (simp add: FlattenGraph_def Let_def)
next
  case (Cons first names)
  from FlattenGraph_loop_panics [OF assms, of "Join (pathParts names) ''.''" "Subgraph n"]
  obtain j x where "(j, x) \<in> set (Vertices (Subgraph n))" "\<not> isSkipped x" "\<not> isWrappable x"
    "FlattenGraph_loop (Join (pathParts names) ''.'') (Vertices (Subgraph n)) (Subgraph n) =
       Inl (Panic (''unwrappable node: '' @ Vertex_Name x))"
    by blast
  then show ?thesis
    using Cons by (auto simp: FlattenGraph_def Let_def)
qed

theorem FlattenGraph_unwrappable_panics_witness:
  "FlattenGraph
     \<lparr>Original = Plain \<lparr>VertexName = ''module.net'', FlattenSkip = None, Wrappable = True\<rparr>,
      Graph = \<lparr>Graph_Path = [''root'', ''net''],
               Graph_vertices =
                 [(0, Plain \<lparr>VertexName = ''aws_instance.web'', FlattenSkip = None, Wrappable = True\<rparr>),
                  (1, Plain \<lparr>VertexName = ''orphan'', FlattenSkip = Some False, Wrappable = False\<rparr>)],
               Graph_edges = [(0, 1)]\<rparr>\<rparr>
   = Inl (Panic ''unwrappable node: orphan'')"
proof -
  let ?n = "\<lparr>Original = Plain \<lparr>VertexName = ''module.net'', FlattenSkip = None, Wrappable = True\<rparr>,
      Graph = \<lparr>Graph_Path = [''root'', ''net''],
               Graph_vertices =
                 [(0, Plain \<lparr>VertexName = ''aws_instance.web'', FlattenSkip = None, Wrappable = True\<rparr>),
                  (1, Plain \<lparr>VertexName = ''orphan'', FlattenSkip = Some False, Wrappable = False\<rparr>)],
               Graph_edges = [(0, 1)]\<rparr>\<rparr>"
  have 1: "(1, Plain \<lparr>VertexName = ''orphan'', FlattenSkip = Some False, Wrappable = False\<rparr>)
           \<in> set (Vertices (Subgraph ?n))"
    by (simp add: Subgraph_def Vertices_def)
  have 2: "\<not> isSkipped (Plain \<lparr>VertexName = ''orphan'', FlattenSkip = Some False, Wrappable = False\<rparr>)"
    by simp
  have 3: "\<not> isWrappable (Plain \<lparr>VertexName = ''orphan'', FlattenSkip = Some False, Wrappable = False\<rparr>)"
    by simp
  from FlattenGraph_unwrappable_panics [OF 1 2 3]
  show ?thesis
    by (auto simp: Subgraph_def Vertices_def)
qed

text \<open>
  Claim C10. When the path of the subgraph holds the root element only, the path string
  is empty, every retained vertex is wrapped with the empty path string, and its name is a
  dot followed by the original name.
\<close>

theorem FlattenGraph_root_only_path:
  assumes "Graph_Path (Subgraph n) = [first]"
    and "distinct (map fst (Vertices (Subgraph n)))"
    and "\<forall>(i, v) \<in> set (Vertices (Subgraph n)). isSkipped v \<or> isWrappable v"
  shows "Join (pathParts (tl (Graph_Path (Subgraph n)))) ''.'' = [] \<and>
         (\<exists>g'. FlattenGraph n = Inr g' \<and>
           Graph_vertices g' =
             map (\<lambda>(i, v). (i, FlatWrap v [first] []))
               (filter (\<lambda>(i, v). \<not> isSkipped v) (Vertices (Subgraph n))) \<and>
           map (\<lambda>(i, w). (i, Vertex_Name w)) (Graph_vertices g') =
             map (\<lambda>(i, v). (i, ''.'' @ Vertex_Name v))
               (filter (\<lambda>(i, v). \<not> isSkipped v) (Vertices (Subgraph n))))"
  using FlattenGraph_result [OF assms] by (simp add: assms(1) pathParts_def split_def)

theorem FlattenGraph_root_only_path_witness:
  "FlattenGraph
     \<lparr>Original = Plain \<lparr>VertexName = ''module.net'', FlattenSkip = None, Wrappable = True\<rparr>,
      Graph = \<lparr>Graph_Path = [''root''],
               Graph_vertices =
                 [(0, Plain \<lparr>VertexName = ''aws_instance.web'', FlattenSkip = None, Wrappable = True\<rparr>)],
               Graph_edges = []\<rparr>\<rparr>
   = Inr \<lparr>Graph_Path = [''root''],
          Graph_vertices =
            [(0, FlatWrap (Plain \<lparr>VertexName = ''aws_instance.web'', FlattenSkip = None, Wrappable = True\<rparr>)
                   [''root''] [])],
          Graph_edges = []\<rparr>
   \<and> Vertex_Name
       (FlatWrap (Plain \<lparr>VertexName = ''aws_instance.web'', FlattenSkip = None, Wrappable = True\<rparr>)
          [''root''] [])
     = ''.aws_instance.web''"
proof -
  let ?n = "\<lparr>Original = Plain \<lparr>VertexName = ''module.net'', FlattenSkip = None, Wrappable = True\<rparr>,
      Graph = \<lparr>Graph_Path = [''root''],
               Graph_vertices =
                 [(0, Plain \<lparr>VertexName = ''aws_instance.web'', FlattenSkip = None, Wrappable = True\<rparr>)],
               Graph_edges = []\<rparr>\<rparr>"
  have 1: "Graph_Path (Subgraph ?n) = [''root'']" by (simp add: Subgraph_def)
  have 2: "distinct (map fst (Vertices (Subgraph ?n)))" by (simp add: Subgraph_def Vertices_def)
  have 3: "\<forall>(i, v) \<in> set (Vertices (Subgraph ?n)). isSkipped v \<or> isWrappable v"
    by (simp add: Subgraph_def Vertices_def)
  obtain g' where g': "FlattenGraph ?n = Inr g'"
    "Graph_vertices g' =
             map (\<lambda>(i, v). (i, FlatWrap v [''root''] []))
               (filter (\<lambda>(i, v). \<not> isSkipped v) (Vertices (Subgraph ?n)))"
    using FlattenGraph_root_only_path [OF 1 2 3] by blast
  have "FlattenGraph ?n = Inr \<lparr>Graph_Path = [''root''],
          Graph_vertices =
            [(0, FlatWrap (Plain \<lparr>VertexName = ''aws_instance.web'', FlattenSkip = None, Wrappable = True\<rparr>)
                   [''root''] [])],
          Graph_edges = []\<rparr>"
    by (simp add: FlattenGraph_def Let_def Subgraph_def Vertices_def pathParts_def Remove_def Replace_def)
  with g' show ?thesis by simp
qed

section \<open>Rendering and re-parsing\<close>




































end
